theory Spec2Isabelle
  imports Main "HOL-Library.Word"
begin

section \<open>The Events sketch: switch debounce and indicator state machine\<close>

text \<open>
  The model follows \<^verbatim>\<open>Events/Events.ino\<close> statement by statement. On the MSP430G2553
  an \<^verbatim>\<open>int\<close> has 16 bits and an \<^verbatim>\<open>unsigned long\<close> has 32 bits, so \<^verbatim>\<open>fall_count\<close>,
  \<^verbatim>\<open>rise_count\<close>, \<^verbatim>\<open>flash_time\<close> and \<^verbatim>\<open>state\<close> are 16-bit words (read as signed with
  \<open>sint\<close>) and the millisecond times are 32-bit words whose subtraction wraps around.
  Every call of \<^verbatim>\<open>millis()\<close> and \<^verbatim>\<open>digitalRead(S2)\<close> is an input of the function that
  makes the call; a logic level is a boolean, \<open>True\<close> for \<^verbatim>\<open>HIGH\<close>.
\<close>

subsection \<open>Constants\<close>

type_synonym int16 = "16 word"
type_synonym ulong = "32 word"

text \<open>\<^verbatim>\<open>#define DEBOUNCE_TIME 50\<close>, converted to \<^verbatim>\<open>unsigned long\<close> where it is compared.\<close>

definition DEBOUNCE_TIME :: ulong where
  "DEBOUNCE_TIME = 50"

definition OFF :: int16 where
  "OFF = 0"

definition ON :: int16 where
  "ON = 1"

definition SLOW_FLASH :: int16 where
  "SLOW_FLASH = 2"

definition FAST_FLASH :: int16 where
  "FAST_FLASH = 3"

definition SLOW :: int16 where
  "SLOW = 1000"

definition FAST :: int16 where
  "FAST = 250"

subsection \<open>State\<close>

text \<open>The interrupt attached to pin S2: \<^verbatim>\<open>attachInterrupt(S2, falling, FALLING)\<close> or
  \<^verbatim>\<open>attachInterrupt(S2, rising, RISING)\<close>.\<close>

datatype edge = FALLING | RISING

text \<open>What the sketch writes to the serial port, in order.\<close>

datatype serial_item = Print string | Println string | PrintlnInt int

text \<open>The global variables of the sketch, the two LED outputs, the attached interrupt
  and the serial output written so far.\<close>

record sketch =
  last_time :: ulong
  fall_count :: int16
  rise_count :: int16
  pressed :: bool
  led :: bool
  flash :: bool
  last_flash :: ulong
  flash_time :: int16
  state :: int16
  attached :: edge
  red_led :: bool
  green_led :: bool
  serial :: "serial_item list"

text \<open>The initialisers of the globals followed by \<^verbatim>\<open>setup()\<close>; \<open>t0\<close> is what
  \<^verbatim>\<open>millis()\<close> returns at the end of \<^verbatim>\<open>setup()\<close>.\<close>

definition setup_sketch :: "ulong \<Rightarrow> sketch" where
  "setup_sketch t0 =
     \<lparr> last_time = t0, fall_count = 0, rise_count = 0,
       pressed = False, led = False, flash = False, last_flash = 0,
       flash_time = 1000, state = OFF,
       attached = FALLING, red_led = False, green_led = False, serial = [] \<rparr>"

subsection \<open>Interrupt service routines\<close>

text \<open>\<^verbatim>\<open>fall_count++; last_time = millis();\<close> The increment of the 16-bit count wraps
  around.\<close>

definition falling :: "ulong \<Rightarrow> sketch \<Rightarrow> sketch" where
  "falling t st = st\<lparr> fall_count := fall_count st + 1, last_time := t \<rparr>"

text \<open>\<^verbatim>\<open>rise_count++; last_time = millis();\<close>\<close>

definition rising :: "ulong \<Rightarrow> sketch \<Rightarrow> sketch" where
  "rising t st = st\<lparr> rise_count := rise_count st + 1, last_time := t \<rparr>"

subsection \<open>The four parts of \<^verbatim>\<open>loop()\<close>\<close>

text \<open>The test \<^verbatim>\<open>fall_count && ((millis() - last_time) > DEBOUNCE_TIME)\<close>.\<close>

definition press_settled :: "ulong \<Rightarrow> sketch \<Rightarrow> bool" where
  "press_settled now st \<longleftrightarrow> fall_count st \<noteq> 0 \<and> DEBOUNCE_TIME < now - last_time st"

text \<open>\<^verbatim>\<open>Serial.print("Switch pressed. Count: "); Serial.println(fall_count);\<close>\<close>

definition press_report :: "sketch \<Rightarrow> sketch" where
  "press_report st =
     st\<lparr> serial := serial st @
           [Print ''Switch pressed. Count: '', PrintlnInt (sint (fall_count st))] \<rparr>"

text \<open>\<^verbatim>\<open>fall_count = 0; pressed = true; if (!digitalRead(S2)) { attachInterrupt(S2, rising,
  RISING); digitalWrite(RED_LED,HIGH); }\<close>\<close>

definition press_reset :: "bool \<Rightarrow> sketch \<Rightarrow> sketch" where
  "press_reset pin st =
     (let st1 = st\<lparr> fall_count := 0, pressed := True \<rparr>
      in if \<not> pin then st1\<lparr> attached := RISING, red_led := True \<rparr> else st1)"

definition press_block :: "ulong \<Rightarrow> bool \<Rightarrow> sketch \<Rightarrow> sketch" where
  "press_block now pin st =
     (if press_settled now st then press_reset pin (press_report st) else st)"

text \<open>The test \<^verbatim>\<open>rise_count && ((millis() - last_time) > DEBOUNCE_TIME)\<close>.\<close>

definition release_settled :: "ulong \<Rightarrow> sketch \<Rightarrow> bool" where
  "release_settled now st \<longleftrightarrow> rise_count st \<noteq> 0 \<and> DEBOUNCE_TIME < now - last_time st"

text \<open>\<^verbatim>\<open>Serial.print("Switch released. Count: "); Serial.println(rise_count);\<close>\<close>

definition release_report :: "sketch \<Rightarrow> sketch" where
  "release_report st =
     st\<lparr> serial := serial st @
           [Print ''Switch released. Count: '', PrintlnInt (sint (rise_count st))] \<rparr>"

text \<open>\<^verbatim>\<open>rise_count = 0; if (digitalRead(S2)) { attachInterrupt(S2, falling, FALLING);
  digitalWrite(RED_LED,LOW); }\<close>\<close>

definition release_reset :: "bool \<Rightarrow> sketch \<Rightarrow> sketch" where
  "release_reset pin st =
     (let st1 = st\<lparr> rise_count := 0 \<rparr>
      in if pin then st1\<lparr> attached := FALLING, red_led := False \<rparr> else st1)"

definition release_block :: "ulong \<Rightarrow> bool \<Rightarrow> sketch \<Rightarrow> sketch" where
  "release_block now pin st =
     (if release_settled now st then release_reset pin (release_report st) else st)"

text \<open>The \<^verbatim>\<open>switch (state)\<close>; it has no default case.\<close>

definition state_machine :: "sketch \<Rightarrow> sketch" where
  "state_machine st =
     (if state st = OFF then
        st\<lparr> green_led := True, state := ON,
            serial := serial st @ [Println ''State: ON''] \<rparr>
      else if state st = ON then
        st\<lparr> flash := True, flash_time := SLOW, state := SLOW_FLASH,
            serial := serial st @ [Println ''State: SLOW FLASH''] \<rparr>
      else if state st = SLOW_FLASH then
        st\<lparr> flash := True, flash_time := FAST, state := FAST_FLASH,
            serial := serial st @ [Println ''State: FAST FLASH''] \<rparr>
      else if state st = FAST_FLASH then
        st\<lparr> flash := False, green_led := False, state := OFF,
            serial := serial st @ [Println ''State: OFF''] \<rparr>
      else st)"

text \<open>\<^verbatim>\<open>if (pressed) { pressed = false; switch (state) ... }\<close>\<close>

definition service_pressed :: "sketch \<Rightarrow> sketch" where
  "service_pressed st =
     (if pressed st then state_machine (st\<lparr> pressed := False \<rparr>) else st)"

text \<open>\<^verbatim>\<open>if (flash && (millis()-last_flash > flash_time)) { led = !led;
  digitalWrite(GREEN_LED,led); last_flash = millis(); }\<close>. The \<^verbatim>\<open>int\<close> \<^verbatim>\<open>flash_time\<close> is
  converted to \<^verbatim>\<open>unsigned long\<close> (sign extension) for the comparison; \<open>now\<close> is the
  reading in the test and \<open>stamp\<close> the later reading stored in \<^verbatim>\<open>last_flash\<close>.\<close>

definition flash_due :: "ulong \<Rightarrow> sketch \<Rightarrow> bool" where
  "flash_due now st \<longleftrightarrow> flash st \<and> (scast (flash_time st) :: ulong) < now - last_flash st"

definition flash_service :: "ulong \<Rightarrow> ulong \<Rightarrow> sketch \<Rightarrow> sketch" where
  "flash_service now stamp st =
     (if flash_due now st
      then st\<lparr> led := \<not> led st, green_led := \<not> led st, last_flash := stamp \<rparr>
      else st)"

subsection \<open>One pass of \<^verbatim>\<open>loop()\<close>\<close>

text \<open>The values read from the timer and the pin during one pass, in the order of the
  calls.\<close>

record reads =
  ms_press :: ulong
  pin_press :: bool
  ms_release :: ulong
  pin_release :: bool
  ms_flash :: ulong
  ms_stamp :: ulong

definition loop :: "reads \<Rightarrow> sketch \<Rightarrow> sketch" where
  "loop r st =
     flash_service (ms_flash r) (ms_stamp r)
       (service_pressed
         (release_block (ms_release r) (pin_release r)
           (press_block (ms_press r) (pin_press r) st)))"

text \<open>A pass in which every timer call returns \<open>t\<close> and every pin read returns \<open>p\<close>.\<close>

definition same_reads :: "ulong \<Rightarrow> bool \<Rightarrow> reads" where
  "same_reads t p = \<lparr> ms_press = t, pin_press = p, ms_release = t, pin_release = p,
                       ms_flash = t, ms_stamp = t \<rparr>"

definition poll :: "ulong \<Rightarrow> bool \<Rightarrow> sketch \<Rightarrow> sketch" where
  "poll t p = loop (same_reads t p)"

subsection \<open>Runs of the sketch\<close>

text \<open>The runtime calls \<^verbatim>\<open>loop()\<close> again and again. A run is a list of whole passes and
  of interrupt service routines between them; the argument of an interrupt is the value
  \<^verbatim>\<open>millis()\<close> returns in the routine. The interrupts that arrive inside a pass are in
  the executions of single statements further down.\<close>

datatype action = Falling_irq ulong | Rising_irq ulong | Pass reads

fun step :: "action \<Rightarrow> sketch \<Rightarrow> sketch" where
  "step (Falling_irq t) st = falling t st"
| "step (Rising_irq t) st = rising t st"
| "step (Pass r) st = loop r st"

fun run :: "action list \<Rightarrow> sketch \<Rightarrow> sketch" where
  "run [] st = st"
| "run (a # as) st = run as (step a st)"

text \<open>A list of passes, each given by its time and the pin level it reads.\<close>

definition passes :: "(ulong \<times> bool) list \<Rightarrow> action list" where
  "passes qs = map (\<lambda>q. Pass (same_reads (fst q) (snd q))) qs"

text \<open>All passes of a list happen at times from \<open>lo\<close> to \<open>hi\<close>.\<close>

definition times_within :: "ulong \<Rightarrow> ulong \<Rightarrow> (ulong \<times> bool) list \<Rightarrow> bool" where
  "times_within lo hi qs = list_all (\<lambda>q. lo \<le> fst q \<and> fst q \<le> hi) qs"

text \<open>Falling edges at 0, 5, 10 and 12 ms, with the passes \<open>q1\<close>, \<open>q2\<close>, \<open>q3\<close> between
  them and the passes \<open>q4\<close> after the last one.\<close>

definition burst ::
  "(ulong \<times> bool) list \<Rightarrow> (ulong \<times> bool) list \<Rightarrow> (ulong \<times> bool) list \<Rightarrow>
   (ulong \<times> bool) list \<Rightarrow> action list" where
  "burst q1 q2 q3 q4 =
     Falling_irq 0 # passes q1 @ Falling_irq 5 # passes q2 @
     Falling_irq 10 # passes q3 @ Falling_irq 12 # passes q4"

subsection \<open>Statements of \<^verbatim>\<open>loop()\<close> and interrupts between them\<close>

text \<open>
  \<^verbatim>\<open>loop()\<close> never disables the interrupts, so an interrupt service routine runs between
  any two statements of a pass. The press block and the release block are taken
  statement by statement; a program point names the statement that is executed next,
  and the evaluation of a test is one step. The service of the \<^verbatim>\<open>pressed\<close> flag and the
  flash service are one step each: they neither read nor write the three variables the
  routines write.
\<close>

datatype pc =
    Press_test | Press_print | Press_println | Press_reset | Press_flag | Press_pin
  | Press_attach | Press_red
  | Release_test | Release_print | Release_println | Release_reset | Release_pin
  | Release_attach | Release_red
  | Service | Flash

text \<open>The statement at a program point, run with the readings \<open>r\<close> of the pass: the next
  program point and the new state.\<close>

fun stmt :: "pc \<Rightarrow> reads \<Rightarrow> sketch \<Rightarrow> pc \<times> sketch" where
  "stmt Press_test r st =
     (if press_settled (ms_press r) st then Press_print else Release_test, st)"
| "stmt Press_print r st =
     (Press_println, st\<lparr> serial := serial st @ [Print ''Switch pressed. Count: ''] \<rparr>)"
| "stmt Press_println r st =
     (Press_reset, st\<lparr> serial := serial st @ [PrintlnInt (sint (fall_count st))] \<rparr>)"
| "stmt Press_reset r st = (Press_flag, st\<lparr> fall_count := 0 \<rparr>)"
| "stmt Press_flag r st = (Press_pin, st\<lparr> pressed := True \<rparr>)"
| "stmt Press_pin r st = (if \<not> pin_press r then Press_attach else Release_test, st)"
| "stmt Press_attach r st = (Press_red, st\<lparr> attached := RISING \<rparr>)"
| "stmt Press_red r st = (Release_test, st\<lparr> red_led := True \<rparr>)"
| "stmt Release_test r st =
     (if release_settled (ms_release r) st then Release_print else Service, st)"
| "stmt Release_print r st =
     (Release_println, st\<lparr> serial := serial st @ [Print ''Switch released. Count: ''] \<rparr>)"
| "stmt Release_println r st =
     (Release_reset, st\<lparr> serial := serial st @ [PrintlnInt (sint (rise_count st))] \<rparr>)"
| "stmt Release_reset r st = (Release_pin, st\<lparr> rise_count := 0 \<rparr>)"
| "stmt Release_pin r st = (if pin_release r then Release_attach else Service, st)"
| "stmt Release_attach r st = (Release_red, st\<lparr> attached := FALLING \<rparr>)"
| "stmt Release_red r st = (Service, st\<lparr> red_led := False \<rparr>)"
| "stmt Service r st = (Flash, service_pressed st)"
| "stmt Flash r st = (Press_test, flash_service (ms_flash r) (ms_stamp r) st)"

text \<open>The routine for an edge direction.\<close>

fun handler :: "edge \<Rightarrow> ulong \<Rightarrow> sketch \<Rightarrow> sketch" where
  "handler FALLING t st = falling t st"
| "handler RISING t st = rising t st"

text \<open>An event is a routine that runs, with the time it reads, or the next statement of
  \<^verbatim>\<open>loop()\<close>, with the readings of its pass.\<close>

datatype event = Handler edge ulong | Stmt reads

fun event_step :: "event \<Rightarrow> pc \<times> sketch \<Rightarrow> pc \<times> sketch" where
  "event_step (Handler d t) (p, st) = (p, handler d t st)"
| "event_step (Stmt r) (p, st) = stmt p r st"

fun execute :: "event list \<Rightarrow> pc \<times> sketch \<Rightarrow> pc \<times> sketch" where
  "execute [] c = c"
| "execute (e # es) c = execute es (event_step e c)"

text \<open>Only the routine attached to the pin can run: every routine of the events is the
  one attached at the moment it runs.\<close>

fun attached_only :: "event list \<Rightarrow> pc \<times> sketch \<Rightarrow> bool" where
  "attached_only [] c = True"
| "attached_only (Handler d t # es) c =
     (attached (snd c) = d \<and> attached_only es (event_step (Handler d t) c))"
| "attached_only (Stmt r # es) c = attached_only es (event_step (Stmt r) c)"


text \<open>A falling edge at 0 ms; the pass at 100 ms finds the press test true; a second
  falling edge at 100 ms is handled before \<^verbatim>\<open>Serial.print\<close>; the pass goes on to
  \<^verbatim>\<open>pressed = true\<close>.\<close>

definition edge_after_test :: "event list" where
  "edge_after_test =
     [Handler FALLING 0, Stmt (same_reads 100 False), Handler FALLING 100,
      Stmt (same_reads 100 False), Stmt (same_reads 100 False),
      Stmt (same_reads 100 False), Stmt (same_reads 100 False)]"

text \<open>A falling edge at 0 ms; the pass at 100 ms reports the press and resets the count; a
  second falling edge at 100 ms is handled after \<^verbatim>\<open>fall_count = 0\<close> and before
  \<^verbatim>\<open>attachInterrupt(S2, rising, RISING)\<close>; the pass reads the pin low and runs to its end.\<close>

definition edge_before_rearm :: "event list" where
  "edge_before_rearm =
     [Handler FALLING 0,
      Stmt (same_reads 100 False), Stmt (same_reads 100 False),
      Stmt (same_reads 100 False), Stmt (same_reads 100 False),
      Handler FALLING 100,
      Stmt (same_reads 100 False), Stmt (same_reads 100 False),
      Stmt (same_reads 100 False), Stmt (same_reads 100 False),
      Stmt (same_reads 100 False), Stmt (same_reads 100 False),
      Stmt (same_reads 100 False)]"

subsection \<open>Pressed events and the cycle of the specification\<close>

text \<open>A Pressed event: \<^verbatim>\<open>pressed = true\<close> in the press block, then its service.\<close>

definition pressed_event :: "sketch \<Rightarrow> sketch" where
  "pressed_event st = service_pressed (st\<lparr> pressed := True \<rparr>)"

text \<open>The successor in the cycle Off, On, SlowFlash, FastFlash, Off, as the specification
  words it; the code's transitions are compared with it.\<close>

definition cycle_succ :: "int16 \<Rightarrow> int16" where
  "cycle_succ s =
     (if s = OFF then ON
      else if s = ON then SLOW_FLASH
      else if s = SLOW_FLASH then FAST_FLASH
      else if s = FAST_FLASH then OFF
      else s)"

text \<open>The flash is enabled exactly in the two flashing states.\<close>

definition flash_matches_state :: "sketch \<Rightarrow> bool" where
  "flash_matches_state st \<longleftrightarrow>
     (flash st \<longleftrightarrow> state st = SLOW_FLASH \<or> state st = FAST_FLASH)"

text \<open>The number of press reports in a serial output.\<close>

definition pressed_events :: "serial_item list \<Rightarrow> nat" where
  "pressed_events out = length (filter (\<lambda>x. x = Print ''Switch pressed. Count: '') out)"

section \<open>Effect of each part on each variable\<close>

lemma setup_sketch_fields [simp]:
  "last_time (setup_sketch t0) = t0"
  "fall_count (setup_sketch t0) = 0"
  "rise_count (setup_sketch t0) = 0"
  "pressed (setup_sketch t0) = False"
  "led (setup_sketch t0) = False"
  "flash (setup_sketch t0) = False"
  "last_flash (setup_sketch t0) = 0"
  "flash_time (setup_sketch t0) = 1000"
  "state (setup_sketch t0) = OFF"
  "attached (setup_sketch t0) = FALLING"
  "red_led (setup_sketch t0) = False"
  "green_led (setup_sketch t0) = False"
  "serial (setup_sketch t0) = []"
  by (simp_all add: setup_sketch_def)

lemma falling_fields [simp]:
  "last_time (falling t st) = t"
  "fall_count (falling t st) = fall_count st + 1"
  "rise_count (falling t st) = rise_count st"
  "pressed (falling t st) = pressed st"
  "led (falling t st) = led st"
  "flash (falling t st) = flash st"
  "last_flash (falling t st) = last_flash st"
  "flash_time (falling t st) = flash_time st"
  "state (falling t st) = state st"
  "attached (falling t st) = attached st"
  "red_led (falling t st) = red_led st"
  "green_led (falling t st) = green_led st"
  "serial (falling t st) = serial st"
  by (simp_all add: falling_def)

lemma rising_fields [simp]:
  "last_time (rising t st) = t"
  "fall_count (rising t st) = fall_count st"
  "rise_count (rising t st) = rise_count st + 1"
  "pressed (rising t st) = pressed st"
  "led (rising t st) = led st"
  "flash (rising t st) = flash st"
  "last_flash (rising t st) = last_flash st"
  "flash_time (rising t st) = flash_time st"
  "state (rising t st) = state st"
  "attached (rising t st) = attached st"
  "red_led (rising t st) = red_led st"
  "green_led (rising t st) = green_led st"
  "serial (rising t st) = serial st"
  by (simp_all add: rising_def)

lemma press_block_fields [simp]:
  "last_time (press_block now pin st) = last_time st"
  "fall_count (press_block now pin st) = (if press_settled now st then 0 else fall_count st)"
  "rise_count (press_block now pin st) = rise_count st"
  "pressed (press_block now pin st) = (press_settled now st \<or> pressed st)"
  "led (press_block now pin st) = led st"
  "flash (press_block now pin st) = flash st"
  "last_flash (press_block now pin st) = last_flash st"
  "flash_time (press_block now pin st) = flash_time st"
  "state (press_block now pin st) = state st"
  "attached (press_block now pin st) =
     (if press_settled now st \<and> \<not> pin then RISING else attached st)"
  "red_led (press_block now pin st) = (press_settled now st \<and> \<not> pin \<or> red_led st)"
  "green_led (press_block now pin st) = green_led st"
  "serial (press_block now pin st) =
     (if press_settled now st
      then serial st @ [Print ''Switch pressed. Count: '', PrintlnInt (sint (fall_count st))]
      else serial st)"
  by (simp_all add: press_block_def press_reset_def press_report_def Let_def)

lemma release_block_fields [simp]:
  "last_time (release_block now pin st) = last_time st"
  "fall_count (release_block now pin st) = fall_count st"
  "rise_count (release_block now pin st) = (if release_settled now st then 0 else rise_count st)"
  "pressed (release_block now pin st) = pressed st"
  "led (release_block now pin st) = led st"
  "flash (release_block now pin st) = flash st"
  "last_flash (release_block now pin st) = last_flash st"
  "flash_time (release_block now pin st) = flash_time st"
  "state (release_block now pin st) = state st"
  "attached (release_block now pin st) =
     (if release_settled now st \<and> pin then FALLING else attached st)"
  "red_led (release_block now pin st) = (\<not> (release_settled now st \<and> pin) \<and> red_led st)"
  "green_led (release_block now pin st) = green_led st"
  "serial (release_block now pin st) =
     (if release_settled now st
      then serial st @ [Print ''Switch released. Count: '', PrintlnInt (sint (rise_count st))]
      else serial st)"
  by (simp_all add: release_block_def release_reset_def release_report_def Let_def)

lemma state_machine_frame [simp]:
  "last_time (state_machine st) = last_time st"
  "fall_count (state_machine st) = fall_count st"
  "rise_count (state_machine st) = rise_count st"
  "pressed (state_machine st) = pressed st"
  "led (state_machine st) = led st"
  "last_flash (state_machine st) = last_flash st"
  "attached (state_machine st) = attached st"
  "red_led (state_machine st) = red_led st"
  by (simp_all add: state_machine_def)

lemma service_pressed_frame [simp]:
  "last_time (service_pressed st) = last_time st"
  "fall_count (service_pressed st) = fall_count st"
  "rise_count (service_pressed st) = rise_count st"
  "pressed (service_pressed st) = False"
  "led (service_pressed st) = led st"
  "last_flash (service_pressed st) = last_flash st"
  "attached (service_pressed st) = attached st"
  "red_led (service_pressed st) = red_led st"
  by (simp_all add: service_pressed_def)

lemma flash_service_fields [simp]:
  "last_time (flash_service now stamp st) = last_time st"
  "fall_count (flash_service now stamp st) = fall_count st"
  "rise_count (flash_service now stamp st) = rise_count st"
  "pressed (flash_service now stamp st) = pressed st"
  "led (flash_service now stamp st) = (led st \<noteq> flash_due now st)"
  "flash (flash_service now stamp st) = flash st"
  "last_flash (flash_service now stamp st) = (if flash_due now st then stamp else last_flash st)"
  "flash_time (flash_service now stamp st) = flash_time st"
  "state (flash_service now stamp st) = state st"
  "attached (flash_service now stamp st) = attached st"
  "red_led (flash_service now stamp st) = red_led st"
  "green_led (flash_service now stamp st) = (if flash_due now st then \<not> led st else green_led st)"
  "serial (flash_service now stamp st) = serial st"
  by (auto simp add: flash_service_def)

lemma pressed_events_simps [simp]:
  "pressed_events [] = 0"
  "pressed_events (xs @ ys) = pressed_events xs + pressed_events ys"
  "pressed_events (Print s # xs) =
     (if s = ''Switch pressed. Count: '' then 1 else 0) + pressed_events xs"
  "pressed_events (Println s # xs) = pressed_events xs"
  "pressed_events (PrintlnInt n # xs) = pressed_events xs"
  by (simp_all add: pressed_events_def)

lemma service_pressed_events [simp]:
  "pressed_events (serial (service_pressed st)) = pressed_events (serial st)"
  by (simp add: service_pressed_def state_machine_def)

lemma loop_counts [simp]:
  "last_time (loop r st) = last_time st"
  "fall_count (loop r st) = (if press_settled (ms_press r) st then 0 else fall_count st)"
  "rise_count (loop r st) = (if release_settled (ms_release r) st then 0 else rise_count st)"
  "pressed (loop r st) = False"
  by (simp_all add: loop_def release_settled_def)

lemma loop_pressed_events [simp]:
  "pressed_events (serial (loop r st)) =
     pressed_events (serial st) + (if press_settled (ms_press r) st then 1 else 0)"
  by (simp add: loop_def)

lemma same_reads_fields [simp]:
  "ms_press (same_reads t p) = t"
  "pin_press (same_reads t p) = p"
  "ms_release (same_reads t p) = t"
  "pin_release (same_reads t p) = p"
  "ms_flash (same_reads t p) = t"
  "ms_stamp (same_reads t p) = t"
  by (simp_all add: same_reads_def)

section \<open>The press block\<close>

text \<open>
  Claim C1. In a pass of \<^verbatim>\<open>loop()\<close> in which \<^verbatim>\<open>fall_count\<close> is not zero and the time since
  \<^verbatim>\<open>last_time\<close> is more than \<^verbatim>\<open>DEBOUNCE_TIME\<close>, the press block reports the count once,
  sets the \<^verbatim>\<open>pressed\<close> flag and resets \<^verbatim>\<open>fall_count\<close> to 0, and the whole pass writes
  exactly one press report; when one of the two conditions fails, the block changes
  nothing, the pass writes no press report and \<^verbatim>\<open>fall_count\<close> keeps its value.
\<close>

theorem press_block_emits_iff_settled:
  "(fall_count st \<noteq> 0 \<and> DEBOUNCE_TIME < now - last_time st \<longrightarrow>
      serial (press_block now pin st) =
        serial st @ [Print ''Switch pressed. Count: '', PrintlnInt (sint (fall_count st))] \<and>
      pressed (press_block now pin st) \<and>
      fall_count (press_block now pin st) = 0) \<and>
   (\<not> (fall_count st \<noteq> 0 \<and> DEBOUNCE_TIME < now - last_time st) \<longrightarrow>
      press_block now pin st = st) \<and>
   (fall_count st \<noteq> 0 \<and> DEBOUNCE_TIME < ms_press r - last_time st \<longrightarrow>
      pressed_events (serial (loop r st)) = pressed_events (serial st) + 1 \<and>
      fall_count (loop r st) = 0) \<and>
   (\<not> (fall_count st \<noteq> 0 \<and> DEBOUNCE_TIME < ms_press r - last_time st) \<longrightarrow>
      pressed_events (serial (loop r st)) = pressed_events (serial st) \<and>
      fall_count (loop r st) = fall_count st)"
proof -
  have block: "press_block now pin st = st" if "\<not> press_settled now st"
    using that by (simp add: press_block_def)
  show ?thesis
    using block by (simp add: press_settled_def)
qed

theorem press_block_emits_iff_settled_witness:
  "fall_count (falling 0 (setup_sketch 0)) \<noteq> 0 \<and>
   DEBOUNCE_TIME < 100 - last_time (falling 0 (setup_sketch 0)) \<and>
   serial (press_block 100 False (falling 0 (setup_sketch 0))) =
     [Print ''Switch pressed. Count: '', PrintlnInt 1] \<and>
   pressed (press_block 100 False (falling 0 (setup_sketch 0))) \<and>
   fall_count (press_block 100 False (falling 0 (setup_sketch 0))) = 0 \<and>
   pressed_events (serial (loop (same_reads 100 False) (falling 0 (setup_sketch 0)))) = 1 \<and>
   fall_count (loop (same_reads 100 False) (falling 0 (setup_sketch 0))) = 0 \<and>
   \<not> DEBOUNCE_TIME < 30 - last_time (falling 0 (setup_sketch 0)) \<and>
   press_block 30 True (falling 0 (setup_sketch 0)) = falling 0 (setup_sketch 0) \<and>
   pressed_events (serial (loop (same_reads 30 True) (falling 0 (setup_sketch 0)))) = 0 \<and>
   fall_count (loop (same_reads 30 True) (falling 0 (setup_sketch 0))) = 1"
  using press_block_emits_iff_settled
          [where st = "falling 0 (setup_sketch 0)" and now = 100 and pin = False
             and r = "same_reads 100 False"]
        press_block_emits_iff_settled
          [where st = "falling 0 (setup_sketch 0)" and now = 30 and pin = True
             and r = "same_reads 30 True"]
  by (simp add: DEBOUNCE_TIME_def)

section \<open>Runs and the state machine: auxiliary facts\<close>

lemma run_append [simp]: "run (as @ bs) st = run bs (run as st)"
  by (induction as arbitrary: st) simp_all

lemma state_machine_state: "state (state_machine st) = cycle_succ (state st)"
  by (simp add: state_machine_def cycle_succ_def OFF_def ON_def SLOW_FLASH_def FAST_FLASH_def)

lemma service_pressed_state:
  "state (service_pressed st) = (if pressed st then cycle_succ (state st) else state st)"
  by (simp add: service_pressed_def state_machine_state)

lemma loop_state:
  "state (loop r st) =
     (if press_settled (ms_press r) st \<or> pressed st then cycle_succ (state st) else state st)"
  by (simp add: loop_def service_pressed_state)

lemma sint_int16_bound: "sint (x :: int16) < 4294967296"
proof -
  have "sint x < 32768" using sint_lt [of x] by simp
  then show ?thesis by linarith
qed

lemma scast_nonneg: "uint (scast x :: ulong) = sint x" if "0 \<le> sint (x :: int16)"
proof -
  have "take_bit 32 (sint x) = sint x"
    using that sint_int16_bound [of x] by (intro take_bit_int_eq_self) simp_all
  then show ?thesis
    by (simp only: scast_eq uint_word_of_int_eq) simp
qed

section \<open>The flash service\<close>

text \<open>
  Claim C8. The flash service inverts \<^verbatim>\<open>led\<close>, writes the new level to the green LED
  and stores the time in \<^verbatim>\<open>last_flash\<close> exactly when \<^verbatim>\<open>flash\<close> is set and the time since
  \<^verbatim>\<open>last_flash\<close> is more than \<^verbatim>\<open>flash_time\<close>; otherwise it changes nothing. For a
  \<^verbatim>\<open>flash_time\<close> that is not negative the comparison is the one of the two numbers.
\<close>

theorem flash_service_toggles_iff_due:
  "(flash st \<and> (scast (flash_time st) :: ulong) < now - last_flash st \<longrightarrow>
      flash_service now stamp st =
        st\<lparr> led := \<not> led st, green_led := \<not> led st, last_flash := stamp \<rparr> \<and>
      led (flash_service now stamp st) = (\<not> led st) \<and>
      last_flash (flash_service now stamp st) = stamp) \<and>
   (\<not> (flash st \<and> (scast (flash_time st) :: ulong) < now - last_flash st) \<longrightarrow>
      flash_service now stamp st = st) \<and>
   (0 \<le> sint (flash_time st) \<longrightarrow>
      ((scast (flash_time st) :: ulong) < now - last_flash st \<longleftrightarrow>
       sint (flash_time st) < uint (now - last_flash st)))"
  by (simp add: flash_service_def flash_due_def word_less_def scast_nonneg)

theorem flash_service_toggles_iff_due_witness:
  "flash (pressed_event (pressed_event (setup_sketch 0))) \<and>
   (scast (flash_time (pressed_event (pressed_event (setup_sketch 0)))) :: ulong)
     < 1001 - last_flash (pressed_event (pressed_event (setup_sketch 0))) \<and>
   led (flash_service 1001 1002 (pressed_event (pressed_event (setup_sketch 0)))) \<and>
   last_flash (flash_service 1001 1002 (pressed_event (pressed_event (setup_sketch 0)))) = 1002 \<and>
   \<not> (scast (flash_time (pressed_event (pressed_event (setup_sketch 0)))) :: ulong)
     < 1000 - last_flash (pressed_event (pressed_event (setup_sketch 0))) \<and>
   flash_service 1000 1000 (pressed_event (pressed_event (setup_sketch 0)))
     = pressed_event (pressed_event (setup_sketch 0)) \<and>
   0 \<le> sint (flash_time (pressed_event (pressed_event (setup_sketch 0))))"
  using flash_service_toggles_iff_due
          [where st = "pressed_event (pressed_event (setup_sketch 0))"
             and now = 1001 and stamp = 1002]
        flash_service_toggles_iff_due
          [where st = "pressed_event (pressed_event (setup_sketch 0))"
             and now = 1000 and stamp = 1000]
  by (simp add: pressed_event_def service_pressed_def state_machine_def setup_sketch_def
      OFF_def ON_def SLOW_FLASH_def FAST_FLASH_def SLOW_def)

section \<open>The pin has changed again when the block fires\<close>

text \<open>
  Claim C10. When the press test holds and the pin reads high, the press block still
  reports the count, resets \<^verbatim>\<open>fall_count\<close> and sets \<^verbatim>\<open>pressed\<close>, and it changes nothing
  else: the attached interrupt and the red LED stay as they were. The pass still counts
  one press report and the state machine still takes its transition. In the same way,
  when the release test holds and the pin reads low, the release block reports the
  count and resets \<^verbatim>\<open>rise_count\<close>, and changes nothing else.
\<close>

theorem settled_with_pin_changed:
  "(press_settled now st \<longrightarrow>
      press_block now True st =
        st\<lparr> serial := serial st @
               [Print ''Switch pressed. Count: '', PrintlnInt (sint (fall_count st))],
            fall_count := 0, pressed := True \<rparr> \<and>
      attached (press_block now True st) = attached st \<and>
      red_led (press_block now True st) = red_led st) \<and>
   (press_settled (ms_press r) st \<and> pin_press r \<longrightarrow>
      pressed_events (serial (loop r st)) = pressed_events (serial st) + 1 \<and>
      state (loop r st) = state (state_machine st)) \<and>
   (release_settled now st \<longrightarrow>
      release_block now False st =
        st\<lparr> serial := serial st @
               [Print ''Switch released. Count: '', PrintlnInt (sint (rise_count st))],
            rise_count := 0 \<rparr> \<and>
      attached (release_block now False st) = attached st \<and>
      red_led (release_block now False st) = red_led st)"
proof -
  have press: "press_block now True st =
      st\<lparr> serial := serial st @
             [Print ''Switch pressed. Count: '', PrintlnInt (sint (fall_count st))],
          fall_count := 0, pressed := True \<rparr>" if "press_settled now st"
    using that by (simp add: press_block_def press_reset_def press_report_def)
  have release: "release_block now False st =
      st\<lparr> serial := serial st @
             [Print ''Switch released. Count: '', PrintlnInt (sint (rise_count st))],
          rise_count := 0 \<rparr>" if "release_settled now st"
    using that by (simp add: release_block_def release_reset_def release_report_def)
  show ?thesis
    using press release by (simp add: loop_state state_machine_state)
qed

theorem settled_with_pin_changed_witness:
  "press_settled 100 (falling 0 (setup_sketch 0)) \<and>
   fall_count (press_block 100 True (falling 0 (setup_sketch 0))) = 0 \<and>
   pressed (press_block 100 True (falling 0 (setup_sketch 0))) \<and>
   attached (press_block 100 True (falling 0 (setup_sketch 0))) = FALLING \<and>
   \<not> red_led (press_block 100 True (falling 0 (setup_sketch 0))) \<and>
   pin_press (same_reads 100 True) \<and>
   state (loop (same_reads 100 True) (falling 0 (setup_sketch 0))) = ON \<and>
   release_settled 300 (rising 200 (poll 100 False (falling 0 (setup_sketch 0)))) \<and>
   rise_count (release_block 300 False (rising 200 (poll 100 False (falling 0 (setup_sketch 0)))))
     = 0 \<and>
   attached (release_block 300 False (rising 200 (poll 100 False (falling 0 (setup_sketch 0)))))
     = RISING \<and>
   red_led (release_block 300 False (rising 200 (poll 100 False (falling 0 (setup_sketch 0)))))"
  using settled_with_pin_changed
          [where st = "falling 0 (setup_sketch 0)" and now = 100
             and r = "same_reads 100 True"]
        settled_with_pin_changed
          [where st = "rising 200 (poll 100 False (falling 0 (setup_sketch 0)))" and now = 300
             and r = "same_reads 100 True"]
  by (simp add: press_settled_def release_settled_def DEBOUNCE_TIME_def poll_def loop_def
      state_machine_def OFF_def ON_def)

section \<open>The indicator state machine: auxiliary facts\<close>

lemmas sketch_defs = setup_sketch_def falling_def rising_def loop_def press_block_def
  press_settled_def press_report_def press_reset_def release_block_def release_settled_def
  release_report_def release_reset_def service_pressed_def state_machine_def flash_service_def
  flash_due_def same_reads_def DEBOUNCE_TIME_def OFF_def ON_def SLOW_FLASH_def FAST_FLASH_def
  SLOW_def FAST_def poll_def

lemma funpow_2_apply: "(f ^^ 2) x = f (f x)"
  by (simp add: eval_nat_numeral)

lemma funpow_4_apply: "(f ^^ 4) x = f (f (f (f x)))"
  by (simp add: eval_nat_numeral)

lemma funpow_6_apply: "(f ^^ 6) x = f (f (f (f (f (f x)))))"
  by (simp add: eval_nat_numeral)

lemma states_distinct [simp]:
  "OFF \<noteq> ON" "OFF \<noteq> SLOW_FLASH" "OFF \<noteq> FAST_FLASH"
  "ON \<noteq> OFF" "ON \<noteq> SLOW_FLASH" "ON \<noteq> FAST_FLASH"
  "SLOW_FLASH \<noteq> OFF" "SLOW_FLASH \<noteq> ON" "SLOW_FLASH \<noteq> FAST_FLASH"
  "FAST_FLASH \<noteq> OFF" "FAST_FLASH \<noteq> ON" "FAST_FLASH \<noteq> SLOW_FLASH"
  by (simp_all add: OFF_def ON_def SLOW_FLASH_def FAST_FLASH_def)

lemma state_machine_flash:
  "flash (state_machine st) =
     (if state st = OFF then flash st
      else if state st = ON \<or> state st = SLOW_FLASH then True
      else if state st = FAST_FLASH then False else flash st)"
  by (simp add: state_machine_def)

lemma state_machine_green:
  "green_led (state_machine st) =
     (if state st = OFF then True
      else if state st = FAST_FLASH then False else green_led st)"
  by (simp add: state_machine_def)

lemma state_machine_if:
  "state (state_machine st) =
     (if state st = OFF then ON
      else if state st = ON then SLOW_FLASH
      else if state st = SLOW_FLASH then FAST_FLASH
      else if state st = FAST_FLASH then OFF else state st)"
  by (simp add: state_machine_def)

lemma flash_matches_state_machine:
  "flash_matches_state st \<Longrightarrow> flash_matches_state (state_machine st)"
  by (simp add: flash_matches_state_def state_machine_flash state_machine_if)

lemma flash_matches_service:
  "flash_matches_state st \<Longrightarrow> flash_matches_state (service_pressed st)"
  using flash_matches_state_machine [of "st\<lparr> pressed := False \<rparr>"]
  by (simp add: service_pressed_def flash_matches_state_def)

lemma flash_matches_blocks:
  "flash_matches_state (press_block now pin st) = flash_matches_state st"
  "flash_matches_state (release_block now pin st) = flash_matches_state st"
  "flash_matches_state (flash_service now stamp st) = flash_matches_state st"
  "flash_matches_state (falling t st) = flash_matches_state st"
  "flash_matches_state (rising t st) = flash_matches_state st"
  by (simp_all add: flash_matches_state_def)

lemma flash_matches_loop:
  "flash_matches_state st \<Longrightarrow> flash_matches_state (loop r st)"
  by (simp add: loop_def flash_matches_blocks flash_matches_service)

lemma flash_matches_step:
  "flash_matches_state st \<Longrightarrow> flash_matches_state (step a st)"
  by (cases a) (simp_all add: flash_matches_blocks flash_matches_loop)

lemma flash_matches_run:
  "flash_matches_state st \<Longrightarrow> flash_matches_state (run as st)"
  by (induction as arbitrary: st) (simp_all add: flash_matches_step)

lemma flash_matches_setup: "flash_matches_state (setup_sketch t0)"
  by (simp add: flash_matches_state_def)

lemma flash_service_idle: "\<not> flash st \<Longrightarrow> flash_service now stamp st = st"
  by (simp add: flash_service_def flash_due_def)

lemma loop_no_toggle:
  assumes "flash_matches_state st" and "state (loop r st) = OFF \<or> state (loop r st) = ON"
  shows "led (loop r st) = led st \<and> last_flash (loop r st) = last_flash st"
proof -
  define mid where
    "mid = service_pressed (release_block (ms_release r) (pin_release r)
             (press_block (ms_press r) (pin_press r) st))"
  have loop: "loop r st = flash_service (ms_flash r) (ms_stamp r) mid"
    by (simp add: loop_def mid_def)
  have "flash_matches_state mid"
    using assms(1) by (simp add: mid_def flash_matches_service flash_matches_blocks)
  moreover have "state mid = OFF \<or> state mid = ON"
    using assms(2) by (simp add: loop)
  ultimately have "\<not> flash mid"
    by (auto simp add: flash_matches_state_def)
  then have "loop r st = mid"
    by (simp add: loop flash_service_idle)
  then show ?thesis
    by (simp add: mid_def)
qed

lemma loop_leaves_fast_flash:
  assumes "state st = FAST_FLASH" and "press_settled (ms_press r) st"
  shows "state (loop r st) = OFF \<and> \<not> flash (loop r st) \<and> \<not> green_led (loop r st) \<and>
         led (loop r st) = led st \<and> last_flash (loop r st) = last_flash st"
  using assms
  by (simp add: loop_def service_pressed_def state_machine_flash state_machine_green
      state_machine_if flash_due_def)

lemma pressed_event_state: "state (pressed_event st) = cycle_succ (state st)"
  by (simp add: pressed_event_def service_pressed_state)

lemma pressed_event_from_off:
  "state st = OFF \<Longrightarrow>
   state (pressed_event st) = ON \<and> green_led (pressed_event st) \<and>
   flash (pressed_event st) = flash st"
  by (simp add: pressed_event_def service_pressed_def state_machine_if state_machine_green
      state_machine_flash)

lemma pressed_event_from_fast:
  "state st = FAST_FLASH \<Longrightarrow>
   state (pressed_event st) = OFF \<and> \<not> green_led (pressed_event st) \<and>
   \<not> flash (pressed_event st)"
  by (simp add: pressed_event_def service_pressed_def state_machine_if state_machine_green
      state_machine_flash)

lemma cycle_succ_simps [simp]:
  "cycle_succ OFF = ON" "cycle_succ ON = SLOW_FLASH"
  "cycle_succ SLOW_FLASH = FAST_FLASH" "cycle_succ FAST_FLASH = OFF"
  by (simp_all add: cycle_succ_def)

lemma cycle_succ_4: "cycle_succ (cycle_succ (cycle_succ (cycle_succ s))) = s"
  by (simp add: cycle_succ_def)

lemma cycle_succ_funpow_4: "(cycle_succ ^^ (4 * k)) s = s"
proof (induction k)
  case 0
  show ?case by simp
next
  case (Suc k)
  have four: "(cycle_succ ^^ 4) s = s"
    by (simp add: eval_nat_numeral cycle_succ_4)
  have "(cycle_succ ^^ (4 * Suc k)) s = (cycle_succ ^^ 4) ((cycle_succ ^^ (4 * k)) s)"
    by (simp add: funpow_add)
  then show ?case
    by (simp only: Suc.IH four)
qed

lemma cycle_succ_funpow_mod: "(cycle_succ ^^ n) s = (cycle_succ ^^ (n mod 4)) s"
proof -
  have "(cycle_succ ^^ n) s = (cycle_succ ^^ (n mod 4 + 4 * (n div 4))) s"
    by simp
  also have "\<dots> = (cycle_succ ^^ (n mod 4)) ((cycle_succ ^^ (4 * (n div 4))) s)"
    by (simp only: funpow_add o_apply)
  finally show ?thesis
    by (simp only: cycle_succ_funpow_4)
qed

lemma pressed_event_funpow_state:
  "state ((pressed_event ^^ n) st) = (cycle_succ ^^ n) (state st)"
  by (induction n) (simp_all add: pressed_event_state)

lemma four_pressed_events:
  assumes "state st = OFF"
  shows "state (pressed_event (pressed_event (pressed_event (pressed_event st)))) = OFF \<and>
         \<not> flash (pressed_event (pressed_event (pressed_event (pressed_event st)))) \<and>
         \<not> green_led (pressed_event (pressed_event (pressed_event (pressed_event st))))"
proof -
  have "state (pressed_event (pressed_event (pressed_event st))) = FAST_FLASH"
    using assms by (simp add: pressed_event_state)
  then show ?thesis
    using pressed_event_from_fast by simp
qed


lemma step_pressed_events_mono:
  "pressed_events (serial st) \<le> pressed_events (serial (step a st))"
  by (cases a) simp_all

lemma run_pressed_events_mono:
  "pressed_events (serial st) \<le> pressed_events (serial (run as st))"
proof (induction as arbitrary: st)
  case Nil
  show ?case by simp
next
  case (Cons a as)
  show ?case
    using step_pressed_events_mono [of st a] Cons.IH [of "step a st"] by simp
qed

lemma step_not_pressed: "\<not> pressed st \<Longrightarrow> \<not> pressed (step a st)"
  by (cases a) simp_all

lemma run_not_pressed: "\<not> pressed st \<Longrightarrow> \<not> pressed (run as st)"
  by (induction as arbitrary: st) (simp_all add: step_not_pressed)

lemma step_state:
  "\<not> pressed st \<Longrightarrow>
   state (step a st) =
     (cycle_succ ^^ (pressed_events (serial (step a st)) - pressed_events (serial st))) (state st)"
  by (cases a) (simp_all add: loop_state)

lemma run_state:
  "\<not> pressed st \<Longrightarrow>
   state (run as st) =
     (cycle_succ ^^ (pressed_events (serial (run as st)) - pressed_events (serial st))) (state st)"
proof (induction as arbitrary: st)
  case Nil
  show ?case by simp
next
  case (Cons a as)
  let ?k0 = "pressed_events (serial st)"
  let ?k1 = "pressed_events (serial (step a st))"
  let ?k2 = "pressed_events (serial (run as (step a st)))"
  have le: "?k0 \<le> ?k1" "?k1 \<le> ?k2"
    by (rule step_pressed_events_mono, rule run_pressed_events_mono)
  have "state (run (a # as) st) = (cycle_succ ^^ (?k2 - ?k1)) (state (step a st))"
    using Cons.IH [of "step a st"] Cons.prems by (simp add: step_not_pressed)
  also have "\<dots> = (cycle_succ ^^ (?k2 - ?k1)) ((cycle_succ ^^ (?k1 - ?k0)) (state st))"
    using step_state [OF Cons.prems, of a] by simp
  also have "\<dots> = (cycle_succ ^^ ((?k2 - ?k1) + (?k1 - ?k0))) (state st)"
    by (simp only: funpow_add o_apply)
  also have "(?k2 - ?k1) + (?k1 - ?k0) = ?k2 - ?k0"
    using le by simp
  finally show ?case by simp
qed

lemma cycle_succ_eq_OFF: "cycle_succ s = OFF \<Longrightarrow> s = FAST_FLASH"
  by (simp add: cycle_succ_def split: if_splits)

lemma loop_idle_pass:
  assumes "\<not> press_settled (ms_press r) st" and "\<not> pressed st" and "\<not> flash st"
  shows "flash (loop r st) = flash st \<and> green_led (loop r st) = green_led st \<and>
         state (loop r st) = state st"
  using assms by (simp add: loop_def service_pressed_def flash_due_def)

lemma step_back_in_off:
  assumes "\<not> pressed st"
    and "state (step a st) = OFF"
    and "pressed_events (serial (step a st)) = pressed_events (serial st) \<Longrightarrow>
           \<not> flash st \<and> \<not> green_led st"
  shows "\<not> flash (step a st) \<and> \<not> green_led (step a st)"
proof (cases a)
  case (Falling_irq t)
  with assms show ?thesis by simp
next
  case (Rising_irq t)
  with assms show ?thesis by simp
next
  case (Pass r)
  show ?thesis
  proof (cases "press_settled (ms_press r) st")
    case True
    then have "state st = FAST_FLASH"
      using assms(1,2) Pass by (simp add: loop_state cycle_succ_eq_OFF)
    then show ?thesis
      using loop_leaves_fast_flash [OF _ True] Pass by simp
  next
    case False
    then have "\<not> flash st \<and> \<not> green_led st"
      using assms(3) Pass by simp
    then show ?thesis
      using loop_idle_pass [OF False assms(1)] Pass by simp
  qed
qed

lemma run_back_in_off:
  assumes "\<not> pressed st"
    and "state (run as st) = OFF"
    and "pressed_events (serial st) < pressed_events (serial (run as st))"
  shows "\<not> flash (run as st) \<and> \<not> green_led (run as st)"
  using assms
proof (induction as rule: rev_induct)
  case Nil
  then show ?case by simp
next
  case (snoc a as)
  let ?mid = "run as st"
  have fin: "run (as @ [a]) st = step a ?mid"
    by simp
  have np: "\<not> pressed ?mid"
    using snoc.prems(1) by (rule run_not_pressed)
  have "\<not> flash ?mid \<and> \<not> green_led ?mid"
    if same: "pressed_events (serial (step a ?mid)) = pressed_events (serial ?mid)"
  proof -
    have "state (step a ?mid) = state ?mid"
      using step_state [OF np, of a] same by simp
    then have "state ?mid = OFF"
      using snoc.prems(2) by (simp only: fin)
    moreover have "pressed_events (serial st) < pressed_events (serial ?mid)"
      using snoc.prems(3) same by (simp only: fin)
    ultimately show ?thesis
      using snoc.IH snoc.prems(1) by simp
  qed
  then have "\<not> flash (step a ?mid) \<and> \<not> green_led (step a ?mid)"
    using step_back_in_off [OF np] snoc.prems(2) by (simp only: fin) blast
  then show ?case
    by simp
qed

section \<open>The cycle of the indicator states\<close>

text \<open>
  Claim C4. From any of the four states Off, On, SlowFlash, FastFlash, \<open>N\<close> Pressed
  events lead to the \<open>(N mod 4)\<close>-th successor in the cycle Off, On, SlowFlash,
  FastFlash, Off; four Pressed events from Off lead back to Off with the flash disabled
  and the green LED low. The same holds for the Pressed events of any run of interrupts
  and passes of \<^verbatim>\<open>loop()\<close> that starts between two passes, counted by the press reports
  the run writes, whatever the flash service does in between.
\<close>

theorem pressed_events_follow_cycle:
  assumes "state st = OFF \<or> state st = ON \<or> state st = SLOW_FLASH \<or> state st = FAST_FLASH"
  shows "state ((pressed_event ^^ N) st) = (cycle_succ ^^ (N mod 4)) (state st) \<and>
         (state st = OFF \<longrightarrow>
            state ((pressed_event ^^ 4) st) = OFF \<and>
            \<not> flash ((pressed_event ^^ 4) st) \<and>
            \<not> green_led ((pressed_event ^^ 4) st)) \<and>
         (\<not> pressed st \<longrightarrow>
            state (run as st) =
              (cycle_succ ^^ ((pressed_events (serial (run as st)) - pressed_events (serial st))
                               mod 4)) (state st)) \<and>
         (\<not> pressed st \<and> state st = OFF \<and>
          pressed_events (serial (run as st)) = pressed_events (serial st) + 4 \<longrightarrow>
            state (run as st) = OFF \<and> \<not> flash (run as st) \<and> \<not> green_led (run as st))"
proof -
  have iter: "state ((pressed_event ^^ N) st) = (cycle_succ ^^ (N mod 4)) (state st)"
    using cycle_succ_funpow_mod [of N "state st"] by (simp only: pressed_event_funpow_state)
  have four: "(pressed_event ^^ 4) st =
      pressed_event (pressed_event (pressed_event (pressed_event st)))"
    by (rule funpow_4_apply)
  have runs: "state (run as st) =
      (cycle_succ ^^ ((pressed_events (serial (run as st)) - pressed_events (serial st)) mod 4))
        (state st)" if "\<not> pressed st"
    using run_state [OF that, of as] cycle_succ_funpow_mod by simp
  have round: "state (run as st) = OFF \<and> \<not> flash (run as st) \<and> \<not> green_led (run as st)"
    if "\<not> pressed st" and "state st = OFF"
      and "pressed_events (serial (run as st)) = pressed_events (serial st) + 4"
  proof -
    have "state (run as st) = OFF"
      using runs [OF that(1)] that(2,3) by simp
    then show ?thesis
      using run_back_in_off [OF that(1)] that(3) by simp
  qed
  show ?thesis
    using iter four_pressed_events [of st] runs round by (simp only: four) blast
qed

theorem pressed_events_follow_cycle_witness:
  "(state (setup_sketch 0) = OFF \<or> state (setup_sketch 0) = ON \<or>
    state (setup_sketch 0) = SLOW_FLASH \<or> state (setup_sketch 0) = FAST_FLASH) \<and>
   state ((pressed_event ^^ 6) (setup_sketch 0)) = SLOW_FLASH \<and>
   state ((pressed_event ^^ 4) (setup_sketch 0)) = OFF \<and>
   \<not> flash ((pressed_event ^^ 4) (setup_sketch 0)) \<and>
   \<not> green_led ((pressed_event ^^ 4) (setup_sketch 0)) \<and>
   \<not> pressed (setup_sketch 0) \<and>
   pressed_events (serial (run
     [Falling_irq 0, Pass (same_reads 100 False), Rising_irq 200, Pass (same_reads 300 True),
      Falling_irq 400, Pass (same_reads 500 False), Rising_irq 600, Pass (same_reads 700 True),
      Falling_irq 800, Pass (same_reads 900 False), Rising_irq 1000, Pass (same_reads 1100 True),
      Pass (same_reads 2000 True),
      Falling_irq 2100, Pass (same_reads 2200 False), Pass (same_reads 4000 False)]
     (setup_sketch 0))) = pressed_events (serial (setup_sketch 0)) + 4 \<and>
   state (run
     [Falling_irq 0, Pass (same_reads 100 False), Rising_irq 200, Pass (same_reads 300 True),
      Falling_irq 400, Pass (same_reads 500 False), Rising_irq 600, Pass (same_reads 700 True),
      Falling_irq 800, Pass (same_reads 900 False), Rising_irq 1000, Pass (same_reads 1100 True),
      Pass (same_reads 2000 True),
      Falling_irq 2100, Pass (same_reads 2200 False), Pass (same_reads 4000 False)]
     (setup_sketch 0)) = OFF \<and>
   \<not> green_led (run
     [Falling_irq 0, Pass (same_reads 100 False), Rising_irq 200, Pass (same_reads 300 True),
      Falling_irq 400, Pass (same_reads 500 False), Rising_irq 600, Pass (same_reads 700 True),
      Falling_irq 800, Pass (same_reads 900 False), Rising_irq 1000, Pass (same_reads 1100 True),
      Pass (same_reads 2000 True),
      Falling_irq 2100, Pass (same_reads 2200 False), Pass (same_reads 4000 False)]
     (setup_sketch 0))"
proof -
  have two: "(6::nat) mod 4 = 2"
    by simp
  show ?thesis
    using pressed_events_follow_cycle
            [where st = "setup_sketch 0" and N = 6 and as =
              "[Falling_irq 0, Pass (same_reads 100 False), Rising_irq 200, Pass (same_reads 300 True),
      Falling_irq 400, Pass (same_reads 500 False), Rising_irq 600, Pass (same_reads 700 True),
      Falling_irq 800, Pass (same_reads 900 False), Rising_irq 1000, Pass (same_reads 1100 True),
      Pass (same_reads 2000 True),
      Falling_irq 2100, Pass (same_reads 2200 False), Pass (same_reads 4000 False)]"]
    by (simp add: two funpow_2_apply funpow_4_apply funpow_6_apply sketch_defs
        pressed_event_def)
qed

section \<open>The flash is enabled in the flashing states only\<close>

text \<open>
  Claim C7. After any run of interrupts and passes of \<^verbatim>\<open>loop()\<close> from the initial state,
  the flash is enabled if and only if the state is SlowFlash or FastFlash. So in state
  Off or On the flash service changes nothing, a pass that ends in state Off or On has
  not toggled \<^verbatim>\<open>led\<close> and has not written \<^verbatim>\<open>last_flash\<close>, and the pass that takes the
  transition out of FastFlash ends in Off with the flash disabled and the green LED
  low, without a toggle.
\<close>

theorem flash_only_in_flashing_states:
  "(flash (run as (setup_sketch t0)) \<longleftrightarrow>
      state (run as (setup_sketch t0)) = SLOW_FLASH \<or>
      state (run as (setup_sketch t0)) = FAST_FLASH) \<and>
   (state (run as (setup_sketch t0)) = OFF \<or> state (run as (setup_sketch t0)) = ON \<longrightarrow>
      flash_service now stamp (run as (setup_sketch t0)) = run as (setup_sketch t0)) \<and>
   (state (loop r (run as (setup_sketch t0))) = OFF \<or>
    state (loop r (run as (setup_sketch t0))) = ON \<longrightarrow>
      led (loop r (run as (setup_sketch t0))) = led (run as (setup_sketch t0)) \<and>
      last_flash (loop r (run as (setup_sketch t0))) = last_flash (run as (setup_sketch t0))) \<and>
   (state st = FAST_FLASH \<and> press_settled (ms_press r) st \<longrightarrow>
      state (loop r st) = OFF \<and> \<not> flash (loop r st) \<and> \<not> green_led (loop r st) \<and>
      led (loop r st) = led st \<and> last_flash (loop r st) = last_flash st)"
proof -
  have inv: "flash_matches_state (run as (setup_sketch t0))"
    by (simp add: flash_matches_run flash_matches_setup)
  have idle: "flash_service now stamp (run as (setup_sketch t0)) = run as (setup_sketch t0)"
    if "state (run as (setup_sketch t0)) = OFF \<or> state (run as (setup_sketch t0)) = ON"
    using inv that by (intro flash_service_idle) (auto simp add: flash_matches_state_def)
  show ?thesis
    using inv idle loop_no_toggle [OF inv] loop_leaves_fast_flash [of st r]
    by (simp add: flash_matches_state_def)
qed

theorem flash_only_in_flashing_states_witness:
  "\<not> flash (run [Falling_irq 0, Pass (same_reads 100 False)] (setup_sketch 0)) \<and>
   state (run [Falling_irq 0, Pass (same_reads 100 False)] (setup_sketch 0)) = ON \<and>
   flash_service 5000 5001 (run [Falling_irq 0, Pass (same_reads 100 False)] (setup_sketch 0))
     = run [Falling_irq 0, Pass (same_reads 100 False)] (setup_sketch 0) \<and>
   state (loop (same_reads 5000 False) (run [Falling_irq 0, Pass (same_reads 100 False)] (setup_sketch 0))) = ON \<and>
   led (loop (same_reads 5000 False) (run [Falling_irq 0, Pass (same_reads 100 False)] (setup_sketch 0)))
     = led (run [Falling_irq 0, Pass (same_reads 100 False)] (setup_sketch 0)) \<and>
   state (falling 5000 (pressed_event (pressed_event (pressed_event (setup_sketch 0))))) = FAST_FLASH \<and>
   press_settled (ms_press (same_reads 6000 False)) (falling 5000 (pressed_event (pressed_event (pressed_event (setup_sketch 0))))) \<and>
   state (loop (same_reads 6000 False) (falling 5000 (pressed_event (pressed_event (pressed_event (setup_sketch 0)))))) = OFF \<and>
   \<not> flash (loop (same_reads 6000 False) (falling 5000 (pressed_event (pressed_event (pressed_event (setup_sketch 0))))))"
  using flash_only_in_flashing_states
          [where as = "[Falling_irq 0, Pass (same_reads 100 False)]" and ?t0.0 = 0 and now = 5000 and stamp = 5001
             and r = "same_reads 5000 False" and st = "setup_sketch 0"]
        flash_only_in_flashing_states
          [where as = "[]" and ?t0.0 = 0 and now = 0 and stamp = 0
             and r = "same_reads 6000 False" and st = "falling 5000 (pressed_event (pressed_event (pressed_event (setup_sketch 0))))"]
  by (simp add: sketch_defs pressed_event_def)

section \<open>The scenario with four falling edges\<close>

lemma quiet_pass:
  assumes "\<not> press_settled t st" and "rise_count st = 0" and "\<not> pressed st" and "\<not> flash st"
  shows "loop (same_reads t p) st = st"
  using assms
  by (simp add: loop_def press_block_def release_block_def release_settled_def
      service_pressed_def flash_service_def flash_due_def)

lemma quiet_passes:
  assumes "rise_count st = 0" and "\<not> pressed st" and "\<not> flash st"
    and "list_all (\<lambda>q. \<not> press_settled (fst q) st) qs"
  shows "run (passes qs) st = st"
  using assms(4)
proof (induction qs)
  case Nil
  show ?case by (simp add: passes_def)
next
  case (Cons q qs)
  then have "loop (same_reads (fst q) (snd q)) st = st"
    using assms(1-3) by (simp add: quiet_pass)
  moreover have "run (passes (q # qs)) st = run (passes qs) (loop (same_reads (fst q) (snd q)) st)"
    by (simp add: passes_def)
  ultimately show ?case
    using Cons by simp
qed

lemma within_not_settled:
  assumes "times_within lo hi qs" and "last_time st = lo"
    and "\<And>t. lo \<le> t \<Longrightarrow> t \<le> hi \<Longrightarrow> \<not> DEBOUNCE_TIME < t - lo"
  shows "list_all (\<lambda>q. \<not> press_settled (fst q) st) qs"
  using assms by (simp add: times_within_def list_all_iff press_settled_def)

lemma window_0_5: "0 \<le> t \<Longrightarrow> t \<le> 5 \<Longrightarrow> \<not> DEBOUNCE_TIME < (t :: ulong) - 0"
  unfolding DEBOUNCE_TIME_def by unat_arith

lemma window_5_10: "5 \<le> t \<Longrightarrow> t \<le> 10 \<Longrightarrow> \<not> DEBOUNCE_TIME < (t :: ulong) - 5"
  unfolding DEBOUNCE_TIME_def by unat_arith

lemma window_10_12: "10 \<le> t \<Longrightarrow> t \<le> 12 \<Longrightarrow> \<not> DEBOUNCE_TIME < (t :: ulong) - 10"
  unfolding DEBOUNCE_TIME_def by unat_arith

lemma window_12_62: "12 \<le> t \<Longrightarrow> t \<le> 62 \<Longrightarrow> \<not> DEBOUNCE_TIME < (t :: ulong) - 12"
  unfolding DEBOUNCE_TIME_def by unat_arith

lemma window_after_62: "62 < t \<Longrightarrow> DEBOUNCE_TIME < (t :: ulong) - 12"
  unfolding DEBOUNCE_TIME_def by unat_arith

lemma burst_state:
  assumes "times_within 0 5 q1" and "times_within 5 10 q2" and "times_within 10 12 q3"
    and "times_within 12 62 q4"
  shows "run (burst q1 q2 q3 q4) (setup_sketch t0) =
         falling 12 (falling 10 (falling 5 (falling 0 (setup_sketch t0))))"
proof -
  let ?s1 = "falling 0 (setup_sketch t0)"
  let ?s2 = "falling 5 ?s1"
  let ?s3 = "falling 10 ?s2"
  let ?s4 = "falling 12 ?s3"
  have 1: "run (passes q1) ?s1 = ?s1"
    using within_not_settled [OF assms(1), of ?s1] window_0_5 by (intro quiet_passes) simp_all
  have 2: "run (passes q2) ?s2 = ?s2"
    using within_not_settled [OF assms(2), of ?s2] window_5_10 by (intro quiet_passes) simp_all
  have 3: "run (passes q3) ?s3 = ?s3"
    using within_not_settled [OF assms(3), of ?s3] window_10_12 by (intro quiet_passes) simp_all
  have 4: "run (passes q4) ?s4 = ?s4"
    using within_not_settled [OF assms(4), of ?s4] window_12_62 by (intro quiet_passes) simp_all
  show ?thesis
    by (simp add: burst_def 1 2 3 4)
qed

lemma burst_settles:
  assumes "62 < t"
  shows "serial (loop (same_reads t p) (falling 12 (falling 10 (falling 5 (falling 0 (setup_sketch t0))))))
           = [Print ''Switch pressed. Count: '', PrintlnInt 4, Println ''State: ON'']"
    and "fall_count (loop (same_reads t p) (falling 12 (falling 10 (falling 5 (falling 0 (setup_sketch t0)))))) = 0"
    and "\<not> flash (loop (same_reads t p) (falling 12 (falling 10 (falling 5 (falling 0 (setup_sketch t0))))))"
  using window_after_62 [OF assms]
  by (simp_all add: loop_def press_settled_def release_settled_def service_pressed_def
      state_machine_def flash_due_def)

text \<open>
  Claim C9 says that after falling edges at 0, 5, 10 and 12 ms the Pressed event is
  emitted at 62 ms. The test is \<^verbatim>\<open>(millis() - last_time) > DEBOUNCE_TIME\<close>, and at 62 ms
  the difference is 50: a pass at 62 ms writes nothing, the pass at 63 ms writes the
  report.
\<close>

theorem four_edge_burst_silent_at_62:
  "serial (run (burst [] [] [] [(62, False)]) (setup_sketch 0)) = [] \<and>
   serial (run (burst [] [] [] [(62, False), (63, False)]) (setup_sketch 0))
     = [Print ''Switch pressed. Count: '', PrintlnInt 4, Println ''State: ON'']"
  by (simp add: burst_def passes_def sketch_defs)

text \<open>
  Claim C9, amended. After falling edges at 0, 5, 10 and 12 ms, with any passes of
  \<^verbatim>\<open>loop()\<close> between the edges and up to 62 ms, nothing has been written to the serial
  port. The first pass later than 62 ms reports the press with the count 4 and takes
  the transition to On, and the passes after it write nothing more: exactly one Pressed
  event is emitted.
\<close>

theorem four_edge_burst:
  assumes "times_within 0 5 q1" and "times_within 5 10 q2" and "times_within 10 12 q3"
    and "times_within 12 62 q4" and "62 < t"
  shows "serial (run (burst q1 q2 q3 q4) (setup_sketch t0)) = [] \<and>
         serial (run (burst q1 q2 q3 q4 @ Pass (same_reads t p) # passes q5) (setup_sketch t0))
           = [Print ''Switch pressed. Count: '', PrintlnInt 4, Println ''State: ON'']"
proof -
  let ?s4 = "falling 12 (falling 10 (falling 5 (falling 0 (setup_sketch t0))))"
  let ?e = "loop (same_reads t p) ?s4"
  have s4: "run (burst q1 q2 q3 q4) (setup_sketch t0) = ?s4"
    using assms(1-4) by (rule burst_state)
  have "list_all (\<lambda>q. \<not> press_settled (fst q) ?e) q5"
    using burst_settles(2) [OF assms(5), of p t0] by (simp add: list_all_iff press_settled_def)
  then have "run (passes q5) ?e = ?e"
    using burst_settles(3) [OF assms(5), of p t0] by (intro quiet_passes) simp_all
  then show ?thesis
    using burst_settles(1) [OF assms(5), of p t0] by (simp add: s4)
qed

theorem four_edge_burst_witness:
  "times_within 0 5 [(3, True)] \<and> times_within 5 10 [] \<and> times_within 10 12 [(11, False)] \<and>
   times_within 12 62 [(30, False), (62, False)] \<and> (62 :: ulong) < 63 \<and>
   serial (run (burst [(3, True)] [] [(11, False)] [(30, False), (62, False)]) (setup_sketch 0))
     = [] \<and>
   serial (run (burst [(3, True)] [] [(11, False)] [(30, False), (62, False)]
                @ Pass (same_reads 63 False) # passes [(64, False), (200, True)])
            (setup_sketch 0))
     = [Print ''Switch pressed. Count: '', PrintlnInt 4, Println ''State: ON'']"
  using four_edge_burst
          [where ?q1.0 = "[(3, True)]" and ?q2.0 = "[]" and ?q3.0 = "[(11, False)]"
             and ?q4.0 = "[(30, False), (62, False)]" and t = 63 and p = False
             and ?q5.0 = "[(64, False), (200, True)]" and ?t0.0 = 0]
  by (simp add: times_within_def)

section \<open>Statements and interrupts: auxiliary facts\<close>

text \<open>
  The routines commute with the service of the \<^verbatim>\<open>pressed\<close> flag and with the flash service,
  so an interrupt inside one of these two parts has the effect of one before it. A pass
  in which no interrupt arrives is \<open>loop\<close>, and every run of passes and interrupts is an
  execution of statements and interrupts.
\<close>

lemma execute_append [simp]: "execute (es @ fs) c = execute fs (execute es c)"
  by (induction es arbitrary: c) simp_all

lemma handler_commutes:
  "handler d t (service_pressed st) = service_pressed (handler d t st)"
  "handler d t (flash_service now stamp st) = flash_service now stamp (handler d t st)"
  by (cases d; simp add: service_pressed_def state_machine_def flash_service_def flash_due_def
      falling_def rising_def)+

lemma press_statements:
  "execute (replicate (if press_settled (ms_press r) st then (if pin_press r then 6 else 8) else 1)
              (Stmt r)) (Press_test, st)
     = (Release_test, press_block (ms_press r) (pin_press r) st)"
  by (simp add: eval_nat_numeral press_block_def press_reset_def press_report_def)

lemma release_statements:
  "execute (replicate (if release_settled (ms_release r) st then (if pin_release r then 7 else 5) else 1)
              (Stmt r)) (Release_test, st)
     = (Service, release_block (ms_release r) (pin_release r) st)"
  by (simp add: eval_nat_numeral release_block_def release_reset_def release_report_def)

lemma pass_refines_loop:
  "\<exists>n. execute (replicate n (Stmt r)) (Press_test, st) = (Press_test, loop r st)"
proof -
  let ?a = "if press_settled (ms_press r) st then (if pin_press r then 6 else 8) else (1::nat)"
  let ?mid = "press_block (ms_press r) (pin_press r) st"
  let ?b = "if release_settled (ms_release r) ?mid then (if pin_release r then 7 else 5)
            else (1::nat)"
  have "replicate (?a + (?b + 2)) (Stmt r)
      = replicate ?a (Stmt r) @ replicate ?b (Stmt r) @ [Stmt r, Stmt r]"
    by (simp only: replicate_add) (simp add: eval_nat_numeral)
  then have "execute (replicate (?a + (?b + 2)) (Stmt r)) (Press_test, st)
      = (Press_test, loop r st)"
    by (simp only: execute_append press_statements release_statements) (simp add: loop_def)
  then show ?thesis ..
qed

lemma run_is_execution:
  "\<exists>es. execute es (Press_test, st) = (Press_test, run as st)"
proof (induction as arbitrary: st)
  case Nil
  have "execute [] (Press_test, st) = (Press_test, run [] st)"
    by simp
  then show ?case ..
next
  case (Cons a as)
  obtain es where rest: "execute es (Press_test, step a st) = (Press_test, run as (step a st))"
    using Cons.IH by blast
  have "\<exists>fs. execute fs (Press_test, st) = (Press_test, step a st)"
  proof (cases a)
    case (Falling_irq t)
    then have "execute [Handler FALLING t] (Press_test, st) = (Press_test, step a st)"
      by simp
    then show ?thesis ..
  next
    case (Rising_irq t)
    then have "execute [Handler RISING t] (Press_test, st) = (Press_test, step a st)"
      by simp
    then show ?thesis ..
  next
    case (Pass r)
    then show ?thesis
      using pass_refines_loop [of r st] by auto
  qed
  then obtain fs where "execute fs (Press_test, st) = (Press_test, step a st)"
    by blast
  then have "execute (fs @ es) (Press_test, st) = (Press_test, run (a # as) st)"
    using rest by simp
  then show ?case ..
qed






lemma flash_matches_stmt:
  "flash_matches_state st \<Longrightarrow> flash_matches_state (snd (stmt p r st))"
  by (cases p) (simp_all add: flash_matches_service flash_matches_blocks,
      simp_all add: flash_matches_state_def)

lemma flash_matches_execute:
  "flash_matches_state (snd c) \<Longrightarrow> flash_matches_state (snd (execute es c))"
proof (induction es arbitrary: c)
  case Nil
  then show ?case by simp
next
  case (Cons e es)
  obtain p st where c: "c = (p, st)"
    by (cases c)
  have "flash_matches_state (snd (event_step e c))"
  proof (cases e)
    case (Handler d t)
    then show ?thesis
      using Cons.prems by (cases d) (simp_all add: c flash_matches_blocks)
  next
    case (Stmt r)
    then show ?thesis
      using Cons.prems by (simp add: c flash_matches_stmt)
  qed
  then show ?case
    using Cons.IH by simp
qed

lemma pressed_event_off_reachable:
  assumes "flash_matches_state st" and "state st = OFF"
  shows "state (pressed_event st) = ON \<and> green_led (pressed_event st) \<and>
         \<not> flash (pressed_event st)"
  using assms pressed_event_from_off [of st] by (simp add: flash_matches_state_def)

lemma loop_off_reachable:
  assumes "flash_matches_state st" and "state st = OFF" and "press_settled (ms_press r) st"
  shows "state (loop r st) = ON \<and> green_led (loop r st) \<and> \<not> flash (loop r st)"
  using assms
  by (simp add: flash_matches_state_def loop_def service_pressed_def state_machine_flash
      state_machine_green state_machine_if flash_due_def)

section \<open>The reported count and the interrupts around the read\<close>




section \<open>The press window after an edge between the reset and the re-arming\<close>

text \<open>
  Claim C3: the debounce window of the falling direction is computed from the time of
  the last falling edge only and is not affected by rising-edge interrupts. The sketch
  has the single variable \<^verbatim>\<open>last_time\<close>, written by both routines. With a falling edge
  handled after \<^verbatim>\<open>fall_count = 0\<close> and before \<^verbatim>\<open>attachInterrupt(S2, rising, RISING)\<close>, every
  routine being the attached one when it runs, the pass ends with \<^verbatim>\<open>fall_count\<close> at 1, the
  last falling edge at 100 ms and the rising-edge routine attached. Then the press test
  holds at 160 ms; after a rising-edge interrupt at 140 ms, \<^verbatim>\<open>last_time\<close> is 140 and the
  press test fails at 160 ms, 60 ms after the last falling edge.
\<close>

theorem press_window_moved_by_rising_irq:
  "attached_only (edge_before_rearm @ [Handler RISING 140]) (Press_test, setup_sketch 0) \<and>
   fst (execute edge_before_rearm (Press_test, setup_sketch 0)) = Press_test \<and>
   fall_count (snd (execute edge_before_rearm (Press_test, setup_sketch 0))) = 1 \<and>
   last_time (snd (execute edge_before_rearm (Press_test, setup_sketch 0))) = 100 \<and>
   press_settled 160 (snd (execute edge_before_rearm (Press_test, setup_sketch 0))) \<and>
   last_time (snd (execute (edge_before_rearm @ [Handler RISING 140]) (Press_test, setup_sketch 0))) = 140 \<and>
   fall_count (snd (execute (edge_before_rearm @ [Handler RISING 140]) (Press_test, setup_sketch 0))) = 1 \<and>
   \<not> press_settled 160
       (snd (execute (edge_before_rearm @ [Handler RISING 140]) (Press_test, setup_sketch 0)))"
  by (simp add: edge_before_rearm_def sketch_defs)

section \<open>A press reported right after an edge\<close>

text \<open>
  Claim C5: an event is never emitted before \<^verbatim>\<open>DEBOUNCE_TIME\<close> has elapsed since the last
  edge of its direction. After a falling edge at 0 ms the press test holds in the pass
  at 100 ms; a second falling edge at 100 ms is handled by the attached routine after
  the test and before \<^verbatim>\<open>Serial.print\<close>. The pass goes on: it reports the press with the
  count 2 and sets \<^verbatim>\<open>pressed\<close>, while \<^verbatim>\<open>last_time\<close> is 100, the time the pass has read.
\<close>

theorem press_reported_right_after_edge:
  "attached_only edge_after_test (Press_test, setup_sketch 0) \<and>
   press_settled 100 (falling 0 (setup_sketch 0)) \<and>
   fst (execute edge_after_test (Press_test, setup_sketch 0)) = Press_pin \<and>
   serial (snd (execute edge_after_test (Press_test, setup_sketch 0)))
     = [Print ''Switch pressed. Count: '', PrintlnInt 2] \<and>
   pressed (snd (execute edge_after_test (Press_test, setup_sketch 0))) \<and>
   last_time (snd (execute edge_after_test (Press_test, setup_sketch 0))) = 100 \<and>
   ms_press (same_reads 100 False) - last_time (snd (execute edge_after_test (Press_test, setup_sketch 0))) = 0"
  by (simp add: edge_after_test_def sketch_defs)

section \<open>The transition from Off to On\<close>

text \<open>
  Claim C6. In every state that the sketch reaches from its initial state, by passes of
  \<^verbatim>\<open>loop()\<close> and interrupts or by single statements and interrupts between them, the
  transition taken on a Pressed event in state Off produces state On with the green LED
  on and the flash disabled; so does the pass of \<^verbatim>\<open>loop()\<close> in which the press test holds
  in state Off.
\<close>

theorem off_to_on_flash_disabled:
  "(state (run as (setup_sketch t0)) = OFF \<longrightarrow>
      state (pressed_event (run as (setup_sketch t0))) = ON \<and>
      green_led (pressed_event (run as (setup_sketch t0))) \<and>
      \<not> flash (pressed_event (run as (setup_sketch t0)))) \<and>
   (state (run as (setup_sketch t0)) = OFF \<and>
    press_settled (ms_press r) (run as (setup_sketch t0)) \<longrightarrow>
      state (loop r (run as (setup_sketch t0))) = ON \<and>
      green_led (loop r (run as (setup_sketch t0))) \<and>
      \<not> flash (loop r (run as (setup_sketch t0)))) \<and>
   (state (snd (execute es (Press_test, setup_sketch t0))) = OFF \<longrightarrow>
      state (pressed_event (snd (execute es (Press_test, setup_sketch t0)))) = ON \<and>
      green_led (pressed_event (snd (execute es (Press_test, setup_sketch t0)))) \<and>
      \<not> flash (pressed_event (snd (execute es (Press_test, setup_sketch t0)))))"
proof -
  have passes: "flash_matches_state (run as (setup_sketch t0))"
    by (simp add: flash_matches_run flash_matches_setup)
  have statements: "flash_matches_state (snd (execute es (Press_test, setup_sketch t0)))"
    by (rule flash_matches_execute) (simp add: flash_matches_setup)
  show ?thesis
    using pressed_event_off_reachable [OF passes] loop_off_reachable [OF passes]
      pressed_event_off_reachable [OF statements]
    by blast
qed

theorem off_to_on_flash_disabled_witness:
  "state (run [Pass (same_reads 10 True), Falling_irq 20] (setup_sketch 0)) = OFF \<and>
   press_settled (ms_press (same_reads 100 False))
     (run [Pass (same_reads 10 True), Falling_irq 20] (setup_sketch 0)) \<and>
   state (pressed_event (run [Pass (same_reads 10 True), Falling_irq 20] (setup_sketch 0)))
     = ON \<and>
   green_led (pressed_event (run [Pass (same_reads 10 True), Falling_irq 20] (setup_sketch 0)))
     \<and>
   \<not> flash (pressed_event (run [Pass (same_reads 10 True), Falling_irq 20] (setup_sketch 0)))
     \<and>
   state (loop (same_reads 100 False)
            (run [Pass (same_reads 10 True), Falling_irq 20] (setup_sketch 0))) = ON \<and>
   green_led (loop (same_reads 100 False)
            (run [Pass (same_reads 10 True), Falling_irq 20] (setup_sketch 0))) \<and>
   \<not> flash (loop (same_reads 100 False)
            (run [Pass (same_reads 10 True), Falling_irq 20] (setup_sketch 0))) \<and>
   state (snd (execute [Handler FALLING 0, Stmt (same_reads 100 False), Handler FALLING 100]
                 (Press_test, setup_sketch 0))) = OFF \<and>
   state (pressed_event
            (snd (execute [Handler FALLING 0, Stmt (same_reads 100 False), Handler FALLING 100]
                    (Press_test, setup_sketch 0)))) = ON \<and>
   \<not> flash (pressed_event
            (snd (execute [Handler FALLING 0, Stmt (same_reads 100 False), Handler FALLING 100]
                    (Press_test, setup_sketch 0))))"
  using off_to_on_flash_disabled
          [where as = "[Pass (same_reads 10 True), Falling_irq 20]" and ?t0.0 = 0
             and r = "same_reads 100 False"
             and es = "[Handler FALLING 0, Stmt (same_reads 100 False), Handler FALLING 100]"]
  by (simp add: sketch_defs pressed_event_def)

end
